theory Spec2Isabelle
  imports Main "HOL-Library.Word"
begin

section \<open>Named locks of pkg/locks/locks.go\<close>

text \<open>
  The package hands out reader/writer locks keyed by a string. Its functions are short
  straight-line sequences of atomic operations on shared memory (a mutex-guarded Go map,
  two \<open>int32\<close> fields updated with \<open>sync/atomic\<close>, a \<open>sync.RWMutex\<close> per entry), run by
  arbitrarily many goroutines. The embedding is a small-step interleaving semantics:
  every goroutine has a program point, one constructor per source line that touches
  shared state, and \<open>step t\<close> executes the line goroutine \<open>t\<close> stands at. A blocking
  call (\<open>Lock\<close>, \<open>RLock\<close>, a channel receive, \<open>wg.Wait\<close>) is a step that is not
  enabled (\<open>None\<close>) until its condition holds.
\<close>

subsection \<open>Data\<close>

type_synonym addr = nat
type_synonym tid = nat

text \<open>\<open>errInvalidLockName(name)\<close>: the only error value of the package.\<close>

datatype error = InvalidLockName string

text \<open>
  \<open>type namedLock struct\<close>. The embedded \<open>*sync.RWMutex\<close> is kept as the two fields
  \<open>readers\<close> (number of read holders) and \<open>writer\<close> (write-held). \<open>queueSize\<close> and
  \<open>writeLockMode\<close> are \<open>int32\<close>; \<open>writeLockCount\<close> is a Go \<open>int\<close>, 64 bits wide on the
  usual platforms, and wraps around like every Go integer. The \<open>locker\<close> back pointer is
  left out: the model has one \<open>namedLocker\<close>, the fields \<open>locks\<close> and \<open>mapLock\<close> of the
  state.
\<close>

record namedLock =
  name :: string
  queueSize :: "32 word"
  writeLockMode :: "32 word"
  writeLockCount :: "64 word"
  readers :: nat
  writer :: bool

text \<open>\<open>newNamedLock\<close>: every field but the name has Go's zero value.\<close>

definition newNamedLock :: "string \<Rightarrow> namedLock" where
  "newNamedLock n =
     \<lparr>name = n, queueSize = 0, writeLockMode = 0, writeLockCount = 0,
      readers = 0, writer = False\<rparr>"

text \<open>What a call hands back to the client goroutine.\<close>

datatype result =
    Handle addr           \<comment> \<open>\<open>return nl, nil\<close>\<close>
  | Failure error         \<comment> \<open>\<open>return errInvalidLockName(..)\<close>\<close>
  | Success               \<comment> \<open>\<open>return nil\<close> of \<open>Release\<close> and \<open>RRelease\<close>\<close>
  | Counter "64 word"     \<comment> \<open>\<open>WriteLockCounter\<close>\<close>
  | Mode bool             \<comment> \<open>\<open>WriteLockMode\<close>\<close>

text \<open>
  \<open>RRelease\<close> is called by clients and by \<open>Upgrade\<close> (which drops its result); the
  continuation says where it returns to. \<open>ToUpgrade g\<close> carries the helper goroutine
  started by that \<open>Upgrade\<close>.
\<close>

datatype cont = ToCaller | ToUpgrade tid

text \<open>
  Program points. The name says which statement is executed next:
  \<^item> \<open>Acq_*\<close>: \<open>namedLocker.Acquire\<close>, lines 149-168;
  \<^item> \<open>RAcq_*\<close>: \<open>namedLocker.RAcquire\<close>, lines 171-189;
  \<^item> \<open>Rel_*\<close>: \<open>namedLock.Release\<close>, lines 70-86;
  \<^item> \<open>RRel_*\<close>: \<open>namedLock.RRelease\<close>, lines 89-104;
  \<^item> \<open>Upg_*\<close>: the calling side of \<open>namedLock.Upgrade\<close>, lines 123-146;
  \<^item> \<open>G_*\<close>: the goroutine started by \<open>Upgrade\<close>, lines 128-135;
  \<^item> \<open>WLC\<close>, \<open>WLM\<close>: \<open>WriteLockCounter\<close> and \<open>WriteLockMode\<close>.
\<close>

datatype pc =
    Idle | Ret result | Exited
  | Acq_check string | Acq_maplock string | Acq_lookup string | Acq_inc addr
  | Acq_mapunlock addr | Acq_store addr | Acq_lock addr | Acq_count addr
  | RAcq_check string | RAcq_maplock string | RAcq_lookup string | RAcq_inc addr
  | RAcq_mapunlock addr | RAcq_store addr | RAcq_rlock addr
  | Rel_check addr | Rel_store addr | Rel_dec addr | Rel_maplock addr | Rel_delete addr
  | Rel_mapunlock addr | Rel_unlock addr
  | RRel_check addr cont | RRel_dec addr cont | RRel_maplock addr cont
  | RRel_delete addr cont | RRel_mapunlock addr cont | RRel_runlock addr cont
  | Upg_spawn addr | Upg_recv addr tid | Upg_wait addr tid
  | G_inc addr | G_send addr | G_store addr | G_lock addr | G_count addr | G_done addr
  | WLC addr | WLM addr

text \<open>
  The shared state. \<open>heap\<close> holds the \<open>namedLock\<close> objects ever allocated, an address is
  an index into it, so a new object never aliases an old one. \<open>locks\<close> is the Go map
  \<open>namedLocker.locks\<close>, \<open>mapLock\<close> the mutex guarding it (with the goroutine that took
  it). \<open>threads\<close> gives every goroutine its program point. \<open>chans g\<close> is the number of
  values buffered in the channel \<open>ch\<close>, and \<open>wgs g\<close> the counter of the wait group \<open>wg\<close>,
  of the \<open>Upgrade\<close> call that started goroutine \<open>g\<close>. \<open>fatal\<close> is set by the Go runtime's
  unrecoverable "unlock of unlocked mutex" errors, which end the process.
\<close>

record state =
  heap :: "namedLock list"
  locks :: "string \<rightharpoonup> addr"
  mapLock :: "tid option"
  threads :: "pc list"
  chans :: "tid \<Rightarrow> nat"
  wgs :: "tid \<Rightarrow> nat"
  fatal :: bool

subsection \<open>The statements\<close>

definition upd :: "addr \<Rightarrow> (namedLock \<Rightarrow> namedLock) \<Rightarrow> state \<Rightarrow> state" where
  "upd a f s = s\<lparr>heap := (heap s)[a := f (heap s ! a)]\<rparr>"

definition set_pc :: "tid \<Rightarrow> pc \<Rightarrow> state \<Rightarrow> state" where
  "set_pc t p s = s\<lparr>threads := (threads s)[t := p]\<rparr>"

text \<open>The Go runtime's \<open>fatal\<close>.\<close>

definition crash :: "state \<Rightarrow> state" where
  "crash s = s\<lparr>fatal := True\<rparr>"

text \<open>\<open>atomic.AddInt32(&nl.queueSize, d)\<close>; the new value is \<open>queueSize + d\<close>.\<close>

definition add_queueSize :: "addr \<Rightarrow> 32 word \<Rightarrow> state \<Rightarrow> state" where
  "add_queueSize a d s = upd a (\<lambda>e. e\<lparr>queueSize := queueSize e + d\<rparr>) s"

text \<open>\<open>atomic.StoreInt32(&nl.writeLockMode, v)\<close>.\<close>

definition store_writeLockMode :: "addr \<Rightarrow> 32 word \<Rightarrow> state \<Rightarrow> state" where
  "store_writeLockMode a v s = upd a (\<lambda>e. e\<lparr>writeLockMode := v\<rparr>) s"

text \<open>\<open>nl.writeLockCount++\<close>.\<close>

definition inc_writeLockCount :: "addr \<Rightarrow> state \<Rightarrow> state" where
  "inc_writeLockCount a s = upd a (\<lambda>e. e\<lparr>writeLockCount := writeLockCount e + 1\<rparr>) s"

text \<open>
  The effect of \<open>nl.Lock()\<close>, \<open>nl.Unlock()\<close>, \<open>nl.RLock()\<close> and \<open>nl.RUnlock()\<close> when they go
  through; when they do is said in \<open>tstep\<close>.
\<close>

definition rw_Lock :: "addr \<Rightarrow> state \<Rightarrow> state" where
  "rw_Lock a s = upd a (\<lambda>e. e\<lparr>writer := True\<rparr>) s"

definition rw_Unlock :: "addr \<Rightarrow> state \<Rightarrow> state" where
  "rw_Unlock a s = upd a (\<lambda>e. e\<lparr>writer := False\<rparr>) s"

definition rw_RLock :: "addr \<Rightarrow> state \<Rightarrow> state" where
  "rw_RLock a s = upd a (\<lambda>e. e\<lparr>readers := readers e + 1\<rparr>) s"

definition rw_RUnlock :: "addr \<Rightarrow> state \<Rightarrow> state" where
  "rw_RUnlock a s = upd a (\<lambda>e. e\<lparr>readers := readers e - 1\<rparr>) s"

text \<open>\<open>lk.mapLock.Lock()\<close> by goroutine \<open>t\<close>, \<open>lk.mapLock.Unlock()\<close>.\<close>

definition map_Lock :: "tid \<Rightarrow> state \<Rightarrow> state" where
  "map_Lock t s = s\<lparr>mapLock := Some t\<rparr>"

definition map_Unlock :: "state \<Rightarrow> state" where
  "map_Unlock s = s\<lparr>mapLock := None\<rparr>"

text \<open>\<open>delete(nl.locker.locks, nl.name)\<close>: the key is the name, whatever it maps to.\<close>

definition map_delete :: "addr \<Rightarrow> state \<Rightarrow> state" where
  "map_delete a s = s\<lparr>locks := (locks s)(name (heap s ! a) := None)\<rparr>"

text \<open>
  Lines 155-159 and 177-181, run with \<open>mapLock\<close> held:
  \<^verbatim>\<open>nl, ok := lk.locks[lockName]; if !ok { nl = newNamedLock(lockName, lk); lk.locks[lockName] = nl }\<close>.
  \<open>found n s\<close> is the entry \<open>nl\<close> ends up as, \<open>find_or_create n s\<close> the state.
\<close>

definition found :: "string \<Rightarrow> state \<Rightarrow> addr" where
  "found n s = (case locks s n of Some a \<Rightarrow> a | None \<Rightarrow> length (heap s))"

definition find_or_create :: "string \<Rightarrow> state \<Rightarrow> state" where
  "find_or_create n s =
     (case locks s n of
        Some a \<Rightarrow> s
      | None \<Rightarrow> s\<lparr>heap := heap s @ [newNamedLock n],
                 locks := (locks s)(n \<mapsto> length (heap s))\<rparr>)"

text \<open>
  \<open>go func() {...}()\<close> of \<open>Upgrade\<close> with \<open>ch := make(chan bool, 1)\<close> and \<open>wg.Add(1)\<close>
  before it: the new goroutine is the next index of \<open>threads\<close>.
\<close>

definition spawn :: "addr \<Rightarrow> state \<Rightarrow> state" where
  "spawn a s =
     s\<lparr>threads := threads s @ [G_inc a],
       chans := (chans s)(length (threads s) := 0),
       wgs := (wgs s)(length (threads s) := 1)\<rparr>"

text \<open>\<open>ch <- true\<close> and \<open><-ch\<close> on the channel of goroutine \<open>g\<close>; \<open>wg.Done()\<close>.\<close>

definition chan_send :: "tid \<Rightarrow> state \<Rightarrow> state" where
  "chan_send g s = s\<lparr>chans := (chans s)(g := chans s g + 1)\<rparr>"

definition chan_recv :: "tid \<Rightarrow> state \<Rightarrow> state" where
  "chan_recv g s = s\<lparr>chans := (chans s)(g := chans s g - 1)\<rparr>"

definition wg_Done :: "tid \<Rightarrow> state \<Rightarrow> state" where
  "wg_Done g s = s\<lparr>wgs := (wgs s)(g := wgs s g - 1)\<rparr>"

text \<open>Where \<open>RRelease\<close> goes when it returns \<open>r\<close>: \<open>Upgrade\<close> ignores the value.\<close>

fun rrel_return :: "cont \<Rightarrow> addr \<Rightarrow> result \<Rightarrow> pc" where
  "rrel_return ToCaller a r = Ret r"
| "rrel_return (ToUpgrade g) a r = Upg_wait a g"

text \<open>
  \<open>tstep t p s\<close>: goroutine \<open>t\<close> executes the statement at program point \<open>p\<close> in state
  \<open>s\<close>; the result is its next program point and the new shared state, or \<open>None\<close> when
  the statement blocks. \<open>sync.Mutex\<close> and \<open>sync.RWMutex\<close> are the Go library's: \<open>Lock\<close>
  waits until there is neither a reader nor a writer, \<open>RLock\<close> until there is no writer,
  and \<open>Unlock\<close> or \<open>RUnlock\<close> of a mutex that is not held that way is a fatal runtime
  error. (That a waiting \<open>Lock\<close> also holds back new readers is not modelled; it only
  removes interleavings.) The channel has room for one value, and a wait group with a
  counter of zero lets \<open>Wait\<close> through (and makes \<open>Done\<close> panic).
\<close>

fun tstep :: "tid \<Rightarrow> pc \<Rightarrow> state \<Rightarrow> (pc \<times> state) option" where
  "tstep t Idle s = None"
| "tstep t (Ret r) s = None"
| "tstep t Exited s = None"
  \<comment> \<open>Acquire\<close>
| "tstep t (Acq_check n) s =
     Some (if n = [] then Ret (Failure (InvalidLockName n)) else Acq_maplock n, s)"
| "tstep t (Acq_maplock n) s =
     (if mapLock s = None then Some (Acq_lookup n, map_Lock t s) else None)"
| "tstep t (Acq_lookup n) s = Some (Acq_inc (found n s), find_or_create n s)"
| "tstep t (Acq_inc a) s = Some (Acq_mapunlock a, add_queueSize a 1 s)"
| "tstep t (Acq_mapunlock a) s =
     (if mapLock s = None then Some (Acq_mapunlock a, crash s)
      else Some (Acq_store a, map_Unlock s))"
| "tstep t (Acq_store a) s = Some (Acq_lock a, store_writeLockMode a 1 s)"
| "tstep t (Acq_lock a) s =
     (if readers (heap s ! a) = 0 \<and> \<not> writer (heap s ! a)
      then Some (Acq_count a, rw_Lock a s) else None)"
| "tstep t (Acq_count a) s = Some (Ret (Handle a), inc_writeLockCount a s)"
  \<comment> \<open>RAcquire\<close>
| "tstep t (RAcq_check n) s =
     Some (if n = [] then Ret (Failure (InvalidLockName n)) else RAcq_maplock n, s)"
| "tstep t (RAcq_maplock n) s =
     (if mapLock s = None then Some (RAcq_lookup n, map_Lock t s) else None)"
| "tstep t (RAcq_lookup n) s = Some (RAcq_inc (found n s), find_or_create n s)"
| "tstep t (RAcq_inc a) s = Some (RAcq_mapunlock a, add_queueSize a 1 s)"
| "tstep t (RAcq_mapunlock a) s =
     (if mapLock s = None then Some (RAcq_mapunlock a, crash s)
      else Some (RAcq_store a, map_Unlock s))"
| "tstep t (RAcq_store a) s = Some (RAcq_rlock a, store_writeLockMode a 0 s)"
| "tstep t (RAcq_rlock a) s =
     (if \<not> writer (heap s ! a) then Some (Ret (Handle a), rw_RLock a s) else None)"
  \<comment> \<open>Release\<close>
| "tstep t (Rel_check a) s =
     Some (if name (heap s ! a) = []
           then Ret (Failure (InvalidLockName (name (heap s ! a)))) else Rel_store a, s)"
| "tstep t (Rel_store a) s = Some (Rel_dec a, store_writeLockMode a 0 s)"
| "tstep t (Rel_dec a) s =
     Some (if queueSize (heap s ! a) + (- 1) = 0 then Rel_maplock a else Rel_unlock a,
           add_queueSize a (- 1) s)"
| "tstep t (Rel_maplock a) s =
     (if mapLock s = None then Some (Rel_delete a, map_Lock t s) else None)"
| "tstep t (Rel_delete a) s = Some (Rel_mapunlock a, map_delete a s)"
| "tstep t (Rel_mapunlock a) s =
     (if mapLock s = None then Some (Rel_mapunlock a, crash s)
      else Some (Rel_unlock a, map_Unlock s))"
| "tstep t (Rel_unlock a) s =
     (if writer (heap s ! a) then Some (Ret Success, rw_Unlock a s)
      else Some (Rel_unlock a, crash s))"
  \<comment> \<open>RRelease\<close>
| "tstep t (RRel_check a k) s =
     Some (if name (heap s ! a) = []
           then rrel_return k a (Failure (InvalidLockName (name (heap s ! a))))
           else RRel_dec a k, s)"
| "tstep t (RRel_dec a k) s =
     Some (if queueSize (heap s ! a) + (- 1) = 0 then RRel_maplock a k else RRel_runlock a k,
           add_queueSize a (- 1) s)"
| "tstep t (RRel_maplock a k) s =
     (if mapLock s = None then Some (RRel_delete a k, map_Lock t s) else None)"
| "tstep t (RRel_delete a k) s = Some (RRel_mapunlock a k, map_delete a s)"
| "tstep t (RRel_mapunlock a k) s =
     (if mapLock s = None then Some (RRel_mapunlock a k, crash s)
      else Some (RRel_runlock a k, map_Unlock s))"
| "tstep t (RRel_runlock a k) s =
     (if 0 < readers (heap s ! a) then Some (rrel_return k a Success, rw_RUnlock a s)
      else Some (RRel_runlock a k, crash s))"
  \<comment> \<open>Upgrade, the caller: lines 125-135 start the goroutine, line 138 receives from
      the channel (closing it, line 139, has no effect any statement sees), line 140
      is RRelease, line 143 waits for the wait group\<close>
| "tstep t (Upg_spawn a) s = Some (Upg_recv a (length (threads s)), spawn a s)"
| "tstep t (Upg_recv a g) s =
     (if 0 < chans s g then Some (RRel_check a (ToUpgrade g), chan_recv g s) else None)"
| "tstep t (Upg_wait a g) s = (if wgs s g = 0 then Some (Ret (Handle a), s) else None)"
  \<comment> \<open>Upgrade, the goroutine \<open>t\<close> it started, lines 129-134 (its channel and wait group
      are \<open>t\<close>'s)\<close>
| "tstep t (G_inc a) s = Some (G_send a, add_queueSize a 1 s)"
| "tstep t (G_send a) s = (if chans s t < 1 then Some (G_store a, chan_send t s) else None)"
| "tstep t (G_store a) s = Some (G_lock a, store_writeLockMode a 1 s)"
| "tstep t (G_lock a) s =
     (if readers (heap s ! a) = 0 \<and> \<not> writer (heap s ! a)
      then Some (G_count a, rw_Lock a s) else None)"
| "tstep t (G_count a) s = Some (G_done a, inc_writeLockCount a s)"
| "tstep t (G_done a) s =
     (if wgs s t = 0 then Some (G_done a, crash s) else Some (Exited, wg_Done t s))"
  \<comment> \<open>the two readers of an entry\<close>
| "tstep t (WLC a) s = Some (Ret (Counter (writeLockCount (heap s ! a))), s)"
| "tstep t (WLM a) s = Some (Ret (Mode (writeLockMode (heap s ! a) = 1)), s)"

text \<open>The entry a program point works on, if any.\<close>

fun pc_addr :: "pc \<Rightarrow> addr option" where
  "pc_addr (Acq_inc a) = Some a" | "pc_addr (Acq_mapunlock a) = Some a"
| "pc_addr (Acq_store a) = Some a" | "pc_addr (Acq_lock a) = Some a"
| "pc_addr (Acq_count a) = Some a"
| "pc_addr (RAcq_inc a) = Some a" | "pc_addr (RAcq_mapunlock a) = Some a"
| "pc_addr (RAcq_store a) = Some a" | "pc_addr (RAcq_rlock a) = Some a"
| "pc_addr (Rel_check a) = Some a" | "pc_addr (Rel_store a) = Some a"
| "pc_addr (Rel_dec a) = Some a" | "pc_addr (Rel_maplock a) = Some a"
| "pc_addr (Rel_delete a) = Some a" | "pc_addr (Rel_mapunlock a) = Some a"
| "pc_addr (Rel_unlock a) = Some a"
| "pc_addr (RRel_check a k) = Some a" | "pc_addr (RRel_dec a k) = Some a"
| "pc_addr (RRel_maplock a k) = Some a" | "pc_addr (RRel_delete a k) = Some a"
| "pc_addr (RRel_mapunlock a k) = Some a" | "pc_addr (RRel_runlock a k) = Some a"
| "pc_addr (Upg_spawn a) = Some a" | "pc_addr (Upg_recv a g) = Some a"
| "pc_addr (Upg_wait a g) = Some a"
| "pc_addr (G_inc a) = Some a" | "pc_addr (G_send a) = Some a"
| "pc_addr (G_store a) = Some a" | "pc_addr (G_lock a) = Some a"
| "pc_addr (G_count a) = Some a" | "pc_addr (G_done a) = Some a"
| "pc_addr (WLC a) = Some a" | "pc_addr (WLM a) = Some a"
| "pc_addr _ = None"

definition valid_addr :: "state \<Rightarrow> pc \<Rightarrow> bool" where
  "valid_addr s p = (case pc_addr p of None \<Rightarrow> True | Some a \<Rightarrow> a < length (heap s))"

text \<open>
  One step of goroutine \<open>t\<close>. Nothing runs after a fatal error, and a program point on an
  address that was never allocated (a nil or dangling handle) is outside the model.
\<close>

definition step :: "tid \<Rightarrow> state \<Rightarrow> state option" where
  "step t s =
     (if fatal s \<or> \<not> t < length (threads s) \<or> \<not> valid_addr s (threads s ! t) then None
      else case tstep t (threads s ! t) s of
             None \<Rightarrow> None
           | Some (p, s') \<Rightarrow> Some (set_pc t p s'))"

subsection \<open>Clients\<close>

text \<open>The calls of the interfaces \<open>NamedLocker\<close> and \<open>NamedLock\<close>.\<close>

datatype call =
    Acquire string | RAcquire string
  | Release addr | RRelease addr | Upgrade addr
  | WriteLockCounter addr | WriteLockMode addr

fun entry :: "call \<Rightarrow> pc" where
  "entry (Acquire n) = Acq_check n"
| "entry (RAcquire n) = RAcq_check n"
| "entry (Release a) = Rel_check a"
| "entry (RRelease a) = RRel_check a ToCaller"
| "entry (Upgrade a) = Upg_spawn a"
| "entry (WriteLockCounter a) = WLC a"
| "entry (WriteLockMode a) = WLM a"

fun at_rest :: "pc \<Rightarrow> bool" where
  "at_rest Idle = True"
| "at_rest (Ret r) = True"
| "at_rest _ = False"

text \<open>A client goroutine that is not inside a call starts one.\<close>

definition invoke :: "tid \<Rightarrow> call \<Rightarrow> state \<Rightarrow> state option" where
  "invoke t c s =
     (if \<not> fatal s \<and> t < length (threads s) \<and> at_rest (threads s ! t)
         \<and> valid_addr s (entry c)
      then Some (set_pc t (entry c) s) else None)"

datatype act = Call tid call | Step tid

fun exec1 :: "act \<Rightarrow> state \<Rightarrow> state option" where
  "exec1 (Call t c) s = invoke t c s"
| "exec1 (Step t) s = step t s"

text \<open>A schedule is a list of actions; it runs only if every action is enabled in turn.\<close>

fun exec :: "act list \<Rightarrow> state \<Rightarrow> state option" where
  "exec [] s = Some s"
| "exec (x # xs) s = (case exec1 x s of None \<Rightarrow> None | Some s' \<Rightarrow> exec xs s')"

text \<open>\<open>run t k\<close>: goroutine \<open>t\<close> takes \<open>k\<close> steps in a row, nobody else moves.\<close>

fun run :: "tid \<Rightarrow> nat \<Rightarrow> state \<Rightarrow> state option" where
  "run t 0 s = Some s"
| "run t (Suc k) s = (case step t s of None \<Rightarrow> None | Some s' \<Rightarrow> run t k s')"

text \<open>\<open>NewNamedLocker()\<close> with \<open>n\<close> client goroutines, none of them in a call.\<close>

definition init :: "nat \<Rightarrow> state" where
  "init n =
     \<lparr>heap = [], locks = Map.empty, mapLock = None, threads = replicate n Idle,
      chans = (\<lambda>_. 0), wgs = (\<lambda>_. 0), fatal = False\<rparr>"

subsection \<open>Schedules used below\<close>

text \<open>
  Three clients and the name \<open>k\<close>. Client 0 acquires \<open>k\<close> (entry 0 is created) and calls
  \<open>Release\<close>, which runs up to and including the decrement of \<open>queueSize\<close> to 0 (line 77).
  Before it takes \<open>mapLock\<close> (line 79), client 1 calls \<open>Acquire\<close> on \<open>k\<close>: it finds entry 0
  in the map, increments \<open>queueSize\<close> to 1 and leaves the map. Client 0 finishes: it
  deletes \<open>k\<close> from the map and unlocks entry 0. Client 1 locks entry 0 and returns.
  Client 2 calls \<open>Acquire\<close> on \<open>k\<close>: the map has no \<open>k\<close>, entry 1 is created and locked at
  once.
\<close>

definition release_acquire_race :: "act list" where
  "release_acquire_race =
    [Call 0 (Acquire ''k''), Step 0, Step 0, Step 0, Step 0, Step 0, Step 0, Step 0, Step 0,
     Call 0 (Release 0), Step 0, Step 0, Step 0,
     Call 1 (Acquire ''k''), Step 1, Step 1, Step 1, Step 1, Step 1, Step 1,
     Step 0, Step 0, Step 0, Step 0,
     Step 1, Step 1,
     Call 2 (Acquire ''k''), Step 2, Step 2, Step 2, Step 2, Step 2, Step 2, Step 2, Step 2]"

text \<open>After that, client 1 releases entry 0: its count drops to 0 and \<open>k\<close> is deleted.\<close>

definition release_acquire_race_then_release :: "act list" where
  "release_acquire_race_then_release =
     release_acquire_race
     @ [Call 1 (Release 0), Step 1, Step 1, Step 1, Step 1, Step 1, Step 1, Step 1]"

subsection \<open>States used as examples\<close>

text \<open>A client has just called \<open>Acquire\<close> on the new name \<open>k\<close>.\<close>

definition acquire_called :: state where
  "acquire_called = the (exec [Call 0 (Acquire ''k'')] (init 1))"

text \<open>A client holds \<open>k\<close> for writing, alone, and has just called \<open>Release\<close>.\<close>

definition writer_holds :: state where
  "writer_holds =
     the (exec [Call 0 (Acquire ''k''), Step 0, Step 0, Step 0, Step 0, Step 0, Step 0,
                Step 0, Step 0, Call 0 (Release 0)] (init 1))"



subsection \<open>Program points of a call\<close>

text \<open>
  The program points of \<open>Acquire\<close> and \<open>RAcquire\<close> once the name is known not to be empty,
  with the only value they return; and the program points of \<open>Release\<close> and of a client's
  \<open>RRelease\<close> on entry \<open>a\<close>, with the value they return once the name check is passed.
\<close>

fun acq_pc :: "pc \<Rightarrow> bool" where
  "acq_pc (Acq_check n) = (n \<noteq> [])"
| "acq_pc (Acq_maplock n) = True"
| "acq_pc (Acq_lookup n) = True"
| "acq_pc (Acq_inc a) = True"
| "acq_pc (Acq_mapunlock a) = True"
| "acq_pc (Acq_store a) = True"
| "acq_pc (Acq_lock a) = True"
| "acq_pc (Acq_count a) = True"
| "acq_pc (RAcq_check n) = (n \<noteq> [])"
| "acq_pc (RAcq_maplock n) = True"
| "acq_pc (RAcq_lookup n) = True"
| "acq_pc (RAcq_inc a) = True"
| "acq_pc (RAcq_mapunlock a) = True"
| "acq_pc (RAcq_store a) = True"
| "acq_pc (RAcq_rlock a) = True"
| "acq_pc (Ret (Handle a)) = True"
| "acq_pc _ = False"

definition rel_pc :: "addr \<Rightarrow> pc \<Rightarrow> bool" where
  "rel_pc a p \<longleftrightarrow>
     p \<in> {Rel_check a, Rel_store a, Rel_dec a, Rel_maplock a, Rel_delete a, Rel_mapunlock a,
          Rel_unlock a, RRel_check a ToCaller, RRel_dec a ToCaller, RRel_maplock a ToCaller,
          RRel_delete a ToCaller, RRel_mapunlock a ToCaller, RRel_runlock a ToCaller,
          Ret Success}"

text \<open>Two clients have just called \<open>Acquire("")\<close> and \<open>RAcquire("")\<close>.\<close>

definition empty_name_called :: state where
  "empty_name_called = the (exec [Call 0 (Acquire []), Call 1 (RAcquire [])] (init 2))"

text \<open>
  An entry made with an empty name (\<open>newNamedLock("", lk)\<close>, which only code of the
  package itself can do), and two goroutines that have just called \<open>Release\<close> and
  \<open>RRelease\<close> on it.
\<close>

definition nameless_entry :: state where
  "nameless_entry =
     \<lparr>heap = [newNamedLock []], locks = Map.empty, mapLock = None,
      threads = [Rel_check 0, RRel_check 0 ToCaller],
      chans = (\<lambda>_. 0), wgs = (\<lambda>_. 0), fatal = False\<rparr>"

text \<open>The program points of \<open>Release\<close>, and those of \<open>RRelease\<close> (for a client or for \<open>Upgrade\<close>).\<close>

fun release_pc :: "pc \<Rightarrow> bool" where
  "release_pc (Rel_check a) = True"
| "release_pc (Rel_store a) = True"
| "release_pc (Rel_dec a) = True"
| "release_pc (Rel_maplock a) = True"
| "release_pc (Rel_delete a) = True"
| "release_pc (Rel_mapunlock a) = True"
| "release_pc (Rel_unlock a) = True"
| "release_pc _ = False"

fun rrelease_pc :: "pc \<Rightarrow> bool" where
  "rrelease_pc (RRel_check a k) = True"
| "rrelease_pc (RRel_dec a k) = True"
| "rrelease_pc (RRel_maplock a k) = True"
| "rrelease_pc (RRel_delete a k) = True"
| "rrelease_pc (RRel_mapunlock a k) = True"
| "rrelease_pc (RRel_runlock a k) = True"
| "rrelease_pc _ = False"

text \<open>
  Two writers (one holding, one waiting) or two readers of \<open>k\<close>; a third goroutine is
  inside \<open>Acquire\<close> of another name and holds \<open>mapLock\<close>; goroutine 0 has just called
  \<open>Release\<close>, or \<open>RRelease\<close>.
\<close>

definition release_with_map_busy :: state where
  "release_with_map_busy =
     the (exec [Call 0 (Acquire ''k''), Step 0, Step 0, Step 0, Step 0, Step 0, Step 0,
                Step 0, Step 0,
                Call 1 (Acquire ''k''), Step 1, Step 1, Step 1, Step 1, Step 1, Step 1,
                Call 2 (Acquire ''j''), Step 2, Step 2,
                Call 0 (Release 0)] (init 3))"

definition rrelease_with_map_busy :: state where
  "rrelease_with_map_busy =
     the (exec [Call 0 (RAcquire ''k''), Step 0, Step 0, Step 0, Step 0, Step 0, Step 0, Step 0,
                Call 1 (RAcquire ''k''), Step 1, Step 1, Step 1, Step 1, Step 1, Step 1, Step 1,
                Call 2 (Acquire ''j''), Step 2, Step 2,
                Call 0 (RRelease 0)] (init 3))"

subsection \<open>The invariant of an Upgrade\<close>










section \<open>Properties\<close>

subsection \<open>Exclusion by name\<close>

text \<open>
  Claim C1 (the per-name lock is a reader/writer exclusion: at most one caller holds the
  exclusive lock of a name). The code does not keep it. At the end of the schedule
  \<open>release_acquire_race\<close> clients 1 and 2 have both returned from \<open>Acquire\<close> of the name
  \<open>k\<close> with a handle, neither has released, no fatal error has happened, and the two
  handles are the distinct entries 0 and 1, both named \<open>k\<close> and both write-locked.
\<close>

theorem Acquire_two_exclusive_holders:
  "map_option threads (exec release_acquire_race (init 3))
     = Some [Ret Success, Ret (Handle 0), Ret (Handle 1)]
   \<and> map_option (map name \<circ> heap) (exec release_acquire_race (init 3))
     = Some [''k'', ''k'']
   \<and> map_option (map writer \<circ> heap) (exec release_acquire_race (init 3))
     = Some [True, True]
   \<and> map_option fatal (exec release_acquire_race (init 3)) = Some False"
  by code_simp

subsection \<open>Registry membership and the reference count\<close>

text \<open>
  Claim C5 (an entry is in the registry mapping if and only if its reference count is
  greater than zero, and every operation preserves this). The code does not keep it. At
  the end of \<open>release_acquire_race\<close>, with no call in progress, entry 0 has the count 1
  and the mapping sends its name to entry 1. When client 1 then releases entry 0, the
  name is deleted: entry 1 has the count 1, is write-locked by client 2, and the mapping
  has no entry for its name.
\<close>

theorem registry_membership_lost:
  "map_option (\<lambda>s. (threads s, map queueSize (heap s), locks s ''k''))
     (exec release_acquire_race (init 3))
     = Some ([Ret Success, Ret (Handle 0), Ret (Handle 1)], [1, 1], Some 1)
   \<and> map_option (\<lambda>s. (threads s, map queueSize (heap s), locks s ''k''))
     (exec release_acquire_race_then_release (init 3))
     = Some ([Ret Success, Ret Success, Ret (Handle 1)], [0, 1], None)"
  by code_simp

subsection \<open>Tools\<close>

lemmas prims = upd_def set_pc_def crash_def add_queueSize_def store_writeLockMode_def
  inc_writeLockCount_def rw_Lock_def rw_Unlock_def rw_RLock_def rw_RUnlock_def
  map_Lock_def map_Unlock_def map_delete_def spawn_def chan_send_def chan_recv_def wg_Done_def

subsection \<open>Acquire, statement by statement\<close>




subsection \<open>Release, statement by statement\<close>



subsection \<open>RAcquire clears the pending-write flag\<close>





subsection \<open>What a step leaves alone, and invariants of a schedule\<close>

lemma nth_upd: "b < length xs \<Longrightarrow> xs[a := v] ! b = (if a = b then v else xs ! b)"
  by auto

lemma tstep_threads:
  assumes "tstep t p s = Some (p', s')"
  shows "length (threads s) \<le> length (threads s') \<and>
    (\<forall>u < length (threads s). threads s' ! u = threads s ! u)"
  using assms
  by (cases p) (auto simp: prims find_or_create_def nth_append split: if_splits option.splits)

lemma tstep_heap:
  assumes "tstep t p s = Some (p', s')"
  shows "length (heap s) \<le> length (heap s') \<and>
    (\<forall>b < length (heap s). name (heap s' ! b) = name (heap s ! b))"
  using assms
  by (cases p) (auto simp: prims find_or_create_def nth_append nth_upd
        split: if_splits option.splits)

lemma step_own:
  assumes "step t s = Some s'"
  obtains p' s'' where "tstep t (threads s ! t) s = Some (p', s'')" "s' = set_pc t p' s''"
    "t < length (threads s)" "\<not> fatal s" "valid_addr s (threads s ! t)"
  using assms by (auto simp: step_def split: if_splits option.splits)

lemma step_pc:
  assumes "step u s = Some s'" and "t < length (threads s)"
  shows "t < length (threads s')"
    and "t \<noteq> u \<Longrightarrow> threads s' ! t = threads s ! t"
    and "t = u \<Longrightarrow> \<exists>s''. tstep t (threads s ! t) s = Some (threads s' ! t, s'')"
proof -
  from assms(1) obtain p' s'' where *: "tstep u (threads s ! u) s = Some (p', s'')"
    "s' = set_pc u p' s''" "u < length (threads s)"
    by (rule step_own)
  note T = tstep_threads [OF *(1)]
  show "t < length (threads s')" using T assms(2) by (simp add: * set_pc_def)
  show "t \<noteq> u \<Longrightarrow> threads s' ! t = threads s ! t"
    using T assms(2) by (simp add: * set_pc_def)
  show "t = u \<Longrightarrow> \<exists>s''. tstep t (threads s ! t) s = Some (threads s' ! t, s'')"
    using * T by (auto simp: set_pc_def)
qed

lemma step_heap:
  assumes "step u s = Some s'"
  shows "length (heap s) \<le> length (heap s')"
    and "b < length (heap s) \<Longrightarrow> name (heap s' ! b) = name (heap s ! b)"
proof -
  from assms(1) obtain p' s'' where *: "tstep u (threads s ! u) s = Some (p', s'')"
    "s' = set_pc u p' s''"
    by (rule step_own)
  note H = tstep_heap [OF *(1)]
  show "length (heap s) \<le> length (heap s')" using H by (simp add: * set_pc_def)
  show "b < length (heap s) \<Longrightarrow> name (heap s' ! b) = name (heap s ! b)"
    using H by (simp add: * set_pc_def)
qed

lemma invoke_pc:
  assumes "invoke u c s = Some s'" and "t < length (threads s)"
  shows "t < length (threads s')" and "t \<noteq> u \<Longrightarrow> threads s' ! t = threads s ! t"
    and "heap s' = heap s"
  using assms by (auto simp: invoke_def set_pc_def split: if_splits)

lemma exec_invariant:
  assumes "exec acts s = Some s'" and "I s"
    and "\<And>x s s'. x \<in> set acts \<Longrightarrow> I s \<Longrightarrow> exec1 x s = Some s' \<Longrightarrow> I s'"
  shows "I s'"
  using assms
proof (induction acts arbitrary: s)
  case Nil
  then show ?case by simp
next
  case (Cons x xs)
  from Cons.prems(1) obtain s1 where s1: "exec1 x s = Some s1" "exec xs s1 = Some s'"
    by (auto split: option.splits)
  have "I s1" using Cons.prems(3) [of x s s1] Cons.prems(2) s1(1) by simp
  moreover have "I u'" if "y \<in> set xs" "I u" "exec1 y u = Some u'" for y u u'
    using Cons.prems(3) [of y u u'] that by simp
  ultimately show ?case using Cons.IH [OF s1(2)] by blast
qed

subsection \<open>The invalid-name error of Acquire and RAcquire\<close>

lemma acq_pc_tstep: "acq_pc p \<Longrightarrow> tstep t p s = Some (p', s') \<Longrightarrow> acq_pc p'"
  by (cases p) (auto split: if_splits)

lemma acq_pc_exec1:
  assumes "exec1 x s = Some s'" and "t < length (threads s) \<and> acq_pc (threads s ! t)"
    and "\<forall>c. x \<noteq> Call t c"
  shows "t < length (threads s') \<and> acq_pc (threads s' ! t)"
proof (cases x)
  case (Call u c)
  with assms invoke_pc [of u c s s' t] show ?thesis by auto
next
  case (Step u)
  with assms have st: "step u s = Some s'" by simp
  show ?thesis
  proof (cases "t = u")
    case True
    with step_pc [OF st] assms(2) acq_pc_tstep show ?thesis by blast
  next
    case False
    with step_pc [OF st] assms(2) show ?thesis by simp
  qed
qed

text \<open>
  Claim C6: \<open>Acquire("")\<close> and \<open>RAcquire("")\<close> return the invalid-name error with their
  first statement, which is always enabled (it waits for nothing) and changes nothing
  but the caller's own program point: the entries, the mapping and its mutex are as
  before. With a non-empty name neither call ever returns an error, whatever the other
  goroutines do in between: in every schedule that lets the call go on (no new call of
  goroutine \<open>t\<close>), \<open>t\<close> is never at \<open>Ret (Failure e)\<close>.
\<close>

theorem Acquire_error_only_for_empty_name:
  assumes "\<not> fatal s" and "t < length (threads s)"
  shows "(threads s ! t = Acq_check [] \<or> threads s ! t = RAcq_check []
          \<longrightarrow> step t s = Some (set_pc t (Ret (Failure (InvalidLockName []))) s)
              \<and> heap (set_pc t (Ret (Failure (InvalidLockName []))) s) = heap s
              \<and> locks (set_pc t (Ret (Failure (InvalidLockName []))) s) = locks s
              \<and> mapLock (set_pc t (Ret (Failure (InvalidLockName []))) s) = mapLock s)
    \<and> (\<forall>n acts s'. n \<noteq> [] \<and> (threads s ! t = Acq_check n \<or> threads s ! t = RAcq_check n)
          \<and> exec acts s = Some s' \<and> (\<forall>c. Call t c \<notin> set acts)
        \<longrightarrow> (\<forall>e. threads s' ! t \<noteq> Ret (Failure e)))"
proof (intro conjI allI impI)
  assume "threads s ! t = Acq_check [] \<or> threads s ! t = RAcq_check []"
  with assms show "step t s = Some (set_pc t (Ret (Failure (InvalidLockName []))) s)"
    by (auto simp: step_def valid_addr_def)
next
  fix n acts s' e
  assume a: "n \<noteq> [] \<and> (threads s ! t = Acq_check n \<or> threads s ! t = RAcq_check n)
          \<and> exec acts s = Some s' \<and> (\<forall>c. Call t c \<notin> set acts)"
  then have i: "t < length (threads s) \<and> acq_pc (threads s ! t)"
    using assms(2) by auto
  have "t < length (threads s') \<and> acq_pc (threads s' ! t)"
  proof (rule exec_invariant [where I = "\<lambda>s. t < length (threads s) \<and> acq_pc (threads s ! t)"])
    show "exec acts s = Some s'" using a by simp
    show "t < length (threads s) \<and> acq_pc (threads s ! t)" by (rule i)
    fix x s1 s2
    assume "x \<in> set acts" "t < length (threads s1) \<and> acq_pc (threads s1 ! t)"
      "exec1 x s1 = Some s2"
    with a show "t < length (threads s2) \<and> acq_pc (threads s2 ! t)"
      using acq_pc_exec1 [of x s1 s2 t] by blast
  qed
  then show "threads s' ! t \<noteq> Ret (Failure e)" by auto
qed (simp_all add: set_pc_def)

theorem Acquire_error_only_for_empty_name_witness:
  "threads empty_name_called ! 0 = Acq_check [] \<and> threads empty_name_called ! 1 = RAcq_check []
   \<and> step 0 empty_name_called
       = Some (set_pc 0 (Ret (Failure (InvalidLockName []))) empty_name_called)
   \<and> step 1 empty_name_called
       = Some (set_pc 1 (Ret (Failure (InvalidLockName []))) empty_name_called)
   \<and> threads acquire_called ! 0 = Acq_check ''k''
   \<and> (\<exists>s'. exec [Step 0, Step 0, Step 0, Step 0, Step 0, Step 0, Step 0, Step 0] acquire_called
              = Some s'
         \<and> threads s' ! 0 = Ret (Handle 0) \<and> (\<forall>e. threads s' ! 0 \<noteq> Ret (Failure e)))"
proof -
  let ?E = empty_name_called and ?A = acquire_called
  let ?acts = "[Step 0, Step 0, Step 0, Step 0, Step 0, Step 0, Step 0, Step 0]"
  have e1: "\<not> fatal ?E" and e2: "0 < length (threads ?E)" and e3: "1 < length (threads ?E)"
    and e4: "threads ?E ! 0 = Acq_check []" and e5: "threads ?E ! 1 = RAcq_check []"
    unfolding empty_name_called_def by code_simp+
  have a1: "\<not> fatal ?A" and a2: "0 < length (threads ?A)"
    and a3: "threads ?A ! 0 = Acq_check ''k''"
    and a4: "map_option (\<lambda>s. threads s ! 0) (exec ?acts ?A) = Some (Ret (Handle 0))"
    unfolding acquire_called_def by code_simp+
  from a4 obtain s' where s': "exec ?acts ?A = Some s'" "threads s' ! 0 = Ret (Handle 0)"
    by auto
  have c: "\<forall>c. Call 0 c \<notin> set ?acts" by simp
  from Acquire_error_only_for_empty_name [OF a1 a2] a3 s'(1) c
  have "\<forall>e. threads s' ! 0 \<noteq> Ret (Failure e)" by blast
  with Acquire_error_only_for_empty_name [OF e1 e2] Acquire_error_only_for_empty_name [OF e1 e3]
    e4 e5 a3 s'
  show ?thesis by blast
qed

subsection \<open>The invalid-name error of Release and RRelease\<close>

lemma rel_pc_tstep:
  "rel_pc a p \<Longrightarrow> name (heap s ! a) \<noteq> [] \<Longrightarrow> tstep t p s = Some (p', s') \<Longrightarrow> rel_pc a p'"
  by (auto simp: rel_pc_def split: if_splits)

lemma rel_pc_exec1:
  assumes "exec1 x s = Some s'"
    and "t < length (threads s) \<and> a < length (heap s) \<and> name (heap s ! a) \<noteq> []
         \<and> rel_pc a (threads s ! t)"
    and "\<forall>c. x \<noteq> Call t c"
  shows "t < length (threads s') \<and> a < length (heap s') \<and> name (heap s' ! a) \<noteq> []
         \<and> rel_pc a (threads s' ! t)"
proof (cases x)
  case (Call u c)
  with assms invoke_pc [of u c s s' t] show ?thesis by auto
next
  case (Step u)
  with assms have st: "step u s = Some s'" by simp
  from step_heap [OF st] assms(2)
  have h: "a < length (heap s')" "name (heap s' ! a) \<noteq> []" by auto
  show ?thesis
  proof (cases "t = u")
    case True
    with step_pc [OF st] assms(2) rel_pc_tstep h show ?thesis by blast
  next
    case False
    with step_pc [OF st] assms(2) h show ?thesis by simp
  qed
qed

text \<open>
  Claim C7: \<open>Release\<close> and \<open>RRelease\<close> return the invalid-name error if and only if the
  entry of the handle has the empty name. If it has, the first statement returns the
  error and changes nothing but the caller's program point: every entry (reference
  count, \<open>writeLockMode\<close>, the \<open>RWMutex\<close>), the mapping and its mutex are as before. If it
  has not, the call never returns an error, in any schedule that lets it go on.
\<close>

theorem Release_error_iff_empty_name:
  assumes "\<not> fatal s" and "t < length (threads s)" and "a < length (heap s)"
    and "threads s ! t = Rel_check a \<or> threads s ! t = RRel_check a ToCaller"
  shows "(name (heap s ! a) = []
          \<longrightarrow> step t s = Some (set_pc t (Ret (Failure (InvalidLockName []))) s)
              \<and> heap (set_pc t (Ret (Failure (InvalidLockName []))) s) = heap s
              \<and> locks (set_pc t (Ret (Failure (InvalidLockName []))) s) = locks s
              \<and> mapLock (set_pc t (Ret (Failure (InvalidLockName []))) s) = mapLock s)
    \<and> (name (heap s ! a) \<noteq> []
          \<longrightarrow> (\<forall>acts s' e. exec acts s = Some s' \<and> (\<forall>c. Call t c \<notin> set acts)
                \<longrightarrow> threads s' ! t \<noteq> Ret (Failure e)))"
proof (intro conjI allI impI)
  assume "name (heap s ! a) = []"
  with assms show "step t s = Some (set_pc t (Ret (Failure (InvalidLockName []))) s)"
    by (auto simp: step_def valid_addr_def)
next
  fix acts s' e
  assume n: "name (heap s ! a) \<noteq> []"
    and a: "exec acts s = Some s' \<and> (\<forall>c. Call t c \<notin> set acts)"
  let ?I = "\<lambda>s. t < length (threads s) \<and> a < length (heap s) \<and> name (heap s ! a) \<noteq> []
         \<and> rel_pc a (threads s ! t)"
  have i: "?I s" using assms n by (auto simp: rel_pc_def)
  have "?I s'"
  proof (rule exec_invariant [where I = ?I])
    show "exec acts s = Some s'" using a by simp
    show "?I s" by (rule i)
    fix x s1 s2
    assume "x \<in> set acts" "?I s1" "exec1 x s1 = Some s2"
    with a show "?I s2"
      using rel_pc_exec1 [of x s1 s2 t a] by blast
  qed
  then show "threads s' ! t \<noteq> Ret (Failure e)" by (auto simp: rel_pc_def)
qed (simp_all add: set_pc_def)

theorem Release_error_iff_empty_name_witness:
  "threads nameless_entry ! 0 = Rel_check 0 \<and> threads nameless_entry ! 1 = RRel_check 0 ToCaller
   \<and> name (heap nameless_entry ! 0) = []
   \<and> step 0 nameless_entry
       = Some (set_pc 0 (Ret (Failure (InvalidLockName []))) nameless_entry)
   \<and> step 1 nameless_entry
       = Some (set_pc 1 (Ret (Failure (InvalidLockName []))) nameless_entry)
   \<and> threads writer_holds ! 0 = Rel_check 0 \<and> name (heap writer_holds ! 0) = ''k''
   \<and> (\<exists>s'. exec [Step 0, Step 0, Step 0, Step 0, Step 0, Step 0, Step 0] writer_holds = Some s'
         \<and> threads s' ! 0 = Ret Success \<and> (\<forall>e. threads s' ! 0 \<noteq> Ret (Failure e)))"
proof -
  let ?N = nameless_entry and ?W = writer_holds
  let ?acts = "[Step 0, Step 0, Step 0, Step 0, Step 0, Step 0, Step 0]"
  have n1: "\<not> fatal ?N" and n2: "0 < length (threads ?N)" and n3: "1 < length (threads ?N)"
    and n4: "0 < length (heap ?N)"
    and n5: "threads ?N ! 0 = Rel_check 0" and n6: "threads ?N ! 1 = RRel_check 0 ToCaller"
    and n7: "name (heap ?N ! 0) = []"
    by (simp_all add: nameless_entry_def newNamedLock_def)
  have w1: "\<not> fatal ?W" and w2: "0 < length (threads ?W)" and w3: "0 < length (heap ?W)"
    and w4: "threads ?W ! 0 = Rel_check 0" and w5: "name (heap ?W ! 0) = ''k''"
    and w6: "map_option (\<lambda>s. threads s ! 0) (exec ?acts ?W) = Some (Ret Success)"
    unfolding writer_holds_def by code_simp+
  from w6 obtain s' where s': "exec ?acts ?W = Some s'" "threads s' ! 0 = Ret Success"
    by auto
  have c: "\<forall>c. Call 0 c \<notin> set ?acts" by simp
  have ne: "name (heap ?W ! 0) \<noteq> []" by (simp add: w5)
  from Release_error_iff_empty_name [OF w1 w2 w3 disjI1 [OF w4]] ne s'(1) c
  have "\<forall>e. threads s' ! 0 \<noteq> Ret (Failure e)" by blast
  with Release_error_iff_empty_name [OF n1 n2 n4 disjI1 [OF n5]]
    Release_error_iff_empty_name [OF n1 n3 n4 disjI2 [OF n6]] n5 n6 n7 w4 w5 s'
  show ?thesis by blast
qed

subsection \<open>What Release and RRelease leave alone\<close>

lemma run_add:
  "run t (i + j) s = (case run t i s of None \<Rightarrow> None | Some s' \<Rightarrow> run t j s')"
  by (induction i arbitrary: s) (auto split: option.splits)

lemma run_None_later: "run t i s = None \<Longrightarrow> i \<le> k \<Longrightarrow> run t k s = None"
  using run_add [of t i "k - i" s] by simp

lemma map_upd_same: "f v = f (xs ! a) \<Longrightarrow> map f (xs[a := v]) = map f xs"
  by (cases "a < length xs") (auto simp: list_eq_iff_nth_eq nth_list_update)

lemma rrelease_frame:
  assumes "tstep t p s = Some (p', s')" and "rrelease_pc p"
  shows "map writeLockMode (heap s') = map writeLockMode (heap s)
    \<and> map writeLockCount (heap s') = map writeLockCount (heap s)
    \<and> map name (heap s') = map name (heap s)"
  using assms
  by (cases p) (auto simp: prims map_upd_same split: if_splits)

lemma release_frame:
  assumes "tstep t p s = Some (p', s')" and "release_pc p"
  shows "map name (heap s') = map name (heap s)"
  using assms
  by (cases p) (auto simp: prims map_upd_same split: if_splits)

lemma Release_short_runs:
  assumes "\<not> fatal s" and "t < length (threads s)" and "a < length (heap s)"
    and "name (heap s ! a) \<noteq> []" and "threads s ! t = Rel_check a" and "writer (heap s ! a)"
    and "queueSize (heap s ! a) - 1 \<noteq> 0"
  shows "run t 1 s = Some (set_pc t (Rel_store a) s)"
    and "run t 2 s = Some (set_pc t (Rel_dec a) (store_writeLockMode a 0 s))"
    and "run t 3 s = Some (set_pc t (Rel_unlock a)
           (add_queueSize a (- 1) (store_writeLockMode a 0 s)))"
    and "run t 4 s = Some (set_pc t (Ret Success)
           (rw_Unlock a (add_queueSize a (- 1) (store_writeLockMode a 0 s))))"
    and "run t 5 s = None"
  using assms
  by (simp_all add: eval_nat_numeral step_def valid_addr_def prims)

lemma RRelease_short_runs:
  assumes "\<not> fatal s" and "t < length (threads s)" and "a < length (heap s)"
    and "name (heap s ! a) \<noteq> []" and "threads s ! t = RRel_check a ToCaller"
    and "0 < readers (heap s ! a)" and "queueSize (heap s ! a) - 1 \<noteq> 0"
  shows "run t 1 s = Some (set_pc t (RRel_dec a ToCaller) s)"
    and "run t 2 s = Some (set_pc t (RRel_runlock a ToCaller) (add_queueSize a (- 1) s))"
    and "run t 3 s = Some (set_pc t (Ret Success) (rw_RUnlock a (add_queueSize a (- 1) s)))"
    and "run t 4 s = None"
  using assms
  by (simp_all add: eval_nat_numeral step_def valid_addr_def prims)

text \<open>
  Claim C10: when the decremented reference count is not zero, a \<open>Release\<close> is the four
  statements check, store, decrement, unlock, and an \<open>RRelease\<close> the three statements
  check, decrement, unlock: after each of them the mapping and its mutex are what they
  were when the call began (whoever holds the mutex), and then the call is over. Every
  statement of \<open>RRelease\<close> leaves \<open>writeLockMode\<close>, \<open>writeLockCount\<close> and the name of every
  entry as they are, and every statement of \<open>Release\<close> leaves the names as they are.
\<close>

theorem Release_frame:
  assumes "\<not> fatal s" and "t < length (threads s)"
  shows "(a < length (heap s) \<and> name (heap s ! a) \<noteq> [] \<and> threads s ! t = Rel_check a
          \<and> writer (heap s ! a) \<and> queueSize (heap s ! a) - 1 \<noteq> 0
        \<longrightarrow> run t 4 s = Some (set_pc t (Ret Success)
              (rw_Unlock a (add_queueSize a (- 1) (store_writeLockMode a 0 s))))
          \<and> (\<forall>k s'. run t k s = Some s'
                \<longrightarrow> k \<le> 4 \<and> locks s' = locks s \<and> mapLock s' = mapLock s))
    \<and> (a < length (heap s) \<and> name (heap s ! a) \<noteq> [] \<and> threads s ! t = RRel_check a ToCaller
          \<and> 0 < readers (heap s ! a) \<and> queueSize (heap s ! a) - 1 \<noteq> 0
        \<longrightarrow> run t 3 s = Some (set_pc t (Ret Success) (rw_RUnlock a (add_queueSize a (- 1) s)))
          \<and> (\<forall>k s'. run t k s = Some s'
                \<longrightarrow> k \<le> 3 \<and> locks s' = locks s \<and> mapLock s' = mapLock s))
    \<and> (\<forall>s'. rrelease_pc (threads s ! t) \<and> step t s = Some s'
        \<longrightarrow> map writeLockMode (heap s') = map writeLockMode (heap s)
          \<and> map writeLockCount (heap s') = map writeLockCount (heap s)
          \<and> map name (heap s') = map name (heap s))
    \<and> (\<forall>s'. release_pc (threads s ! t) \<and> step t s = Some s'
        \<longrightarrow> map name (heap s') = map name (heap s))"
proof (intro conjI allI impI)
  assume h: "a < length (heap s) \<and> name (heap s ! a) \<noteq> [] \<and> threads s ! t = Rel_check a
          \<and> writer (heap s ! a) \<and> queueSize (heap s ! a) - 1 \<noteq> 0"
  then have R: "run t 1 s = Some (set_pc t (Rel_store a) s)"
    "run t 2 s = Some (set_pc t (Rel_dec a) (store_writeLockMode a 0 s))"
    "run t 3 s = Some (set_pc t (Rel_unlock a)
           (add_queueSize a (- 1) (store_writeLockMode a 0 s)))"
    "run t 4 s = Some (set_pc t (Ret Success)
           (rw_Unlock a (add_queueSize a (- 1) (store_writeLockMode a 0 s))))"
    "run t 5 s = None"
    using Release_short_runs [OF assms, of a] by blast+
  show "run t 4 s = Some (set_pc t (Ret Success)
          (rw_Unlock a (add_queueSize a (- 1) (store_writeLockMode a 0 s))))"
    by (rule R(4))
  fix k s' assume k: "run t k s = Some s'"
  have "\<not> 5 \<le> k" using run_None_later [OF R(5), of k] k by auto
  then have "k = 0 \<or> k = 1 \<or> k = 2 \<or> k = 3 \<or> k = 4" by arith
  with k R show "k \<le> 4" "locks s' = locks s" "mapLock s' = mapLock s"
    by (auto simp: prims)
next
  assume h: "a < length (heap s) \<and> name (heap s ! a) \<noteq> []
          \<and> threads s ! t = RRel_check a ToCaller
          \<and> 0 < readers (heap s ! a) \<and> queueSize (heap s ! a) - 1 \<noteq> 0"
  then have R: "run t 1 s = Some (set_pc t (RRel_dec a ToCaller) s)"
    "run t 2 s = Some (set_pc t (RRel_runlock a ToCaller) (add_queueSize a (- 1) s))"
    "run t 3 s = Some (set_pc t (Ret Success) (rw_RUnlock a (add_queueSize a (- 1) s)))"
    "run t 4 s = None"
    using RRelease_short_runs [OF assms, of a] by blast+
  show "run t 3 s = Some (set_pc t (Ret Success) (rw_RUnlock a (add_queueSize a (- 1) s)))"
    by (rule R(3))
  fix k s' assume k: "run t k s = Some s'"
  have "\<not> 4 \<le> k" using run_None_later [OF R(4), of k] k by auto
  then have "k = 0 \<or> k = 1 \<or> k = 2 \<or> k = 3" by arith
  with k R show "k \<le> 3" "locks s' = locks s" "mapLock s' = mapLock s"
    by (auto simp: prims)
next
  fix s' assume "rrelease_pc (threads s ! t) \<and> step t s = Some s'"
  then obtain p' s'' where "tstep t (threads s ! t) s = Some (p', s'')" "s' = set_pc t p' s''"
    "rrelease_pc (threads s ! t)"
    by (auto elim: step_own)
  then show "map writeLockMode (heap s') = map writeLockMode (heap s)"
    "map writeLockCount (heap s') = map writeLockCount (heap s)"
    "map name (heap s') = map name (heap s)"
    using rrelease_frame [of t "threads s ! t" s p' s''] by (simp_all add: set_pc_def)
next
  fix s' assume "release_pc (threads s ! t) \<and> step t s = Some s'"
  then obtain p' s'' where "tstep t (threads s ! t) s = Some (p', s'')" "s' = set_pc t p' s''"
    "release_pc (threads s ! t)"
    by (auto elim: step_own)
  then show "map name (heap s') = map name (heap s)"
    using release_frame [of t "threads s ! t" s p' s''] by (simp add: set_pc_def)
qed

theorem Release_frame_witness:
  "threads release_with_map_busy ! 0 = Rel_check 0
   \<and> queueSize (heap release_with_map_busy ! 0) = 2
   \<and> mapLock release_with_map_busy = Some 2
   \<and> (\<exists>s'. run 0 4 release_with_map_busy = Some s' \<and> threads s' ! 0 = Ret Success
         \<and> locks s' = locks release_with_map_busy \<and> mapLock s' = Some 2)
   \<and> threads rrelease_with_map_busy ! 0 = RRel_check 0 ToCaller
   \<and> queueSize (heap rrelease_with_map_busy ! 0) = 2
   \<and> mapLock rrelease_with_map_busy = Some 2
   \<and> (\<exists>s'. run 0 3 rrelease_with_map_busy = Some s' \<and> threads s' ! 0 = Ret Success
         \<and> locks s' = locks rrelease_with_map_busy \<and> mapLock s' = Some 2)
   \<and> (\<exists>s'. step 0 rrelease_with_map_busy = Some s'
         \<and> map writeLockMode (heap s') = map writeLockMode (heap rrelease_with_map_busy)
         \<and> map writeLockCount (heap s') = map writeLockCount (heap rrelease_with_map_busy)
         \<and> map name (heap s') = map name (heap rrelease_with_map_busy))
   \<and> (\<exists>s'. step 0 release_with_map_busy = Some s'
         \<and> map name (heap s') = map name (heap release_with_map_busy))"
proof -
  let ?W = release_with_map_busy and ?R = rrelease_with_map_busy
  have w1: "\<not> fatal ?W" and w2: "0 < length (threads ?W)" and w3: "0 < length (heap ?W)"
    and w4: "name (heap ?W ! 0) \<noteq> []" and w5: "threads ?W ! 0 = Rel_check 0"
    and w6: "writer (heap ?W ! 0)" and w7: "queueSize (heap ?W ! 0) - 1 \<noteq> 0"
    and w8: "queueSize (heap ?W ! 0) = 2" and w9: "mapLock ?W = Some 2"
    and w10: "map_option (\<lambda>s. threads s ! 0) (run 0 4 ?W) = Some (Ret Success)"
    and w11: "map_option (\<lambda>s. threads s ! 0) (step 0 ?W) = Some (Rel_store 0)"
    unfolding release_with_map_busy_def by code_simp+
  have r1: "\<not> fatal ?R" and r2: "0 < length (threads ?R)" and r3: "0 < length (heap ?R)"
    and r4: "name (heap ?R ! 0) \<noteq> []" and r5: "threads ?R ! 0 = RRel_check 0 ToCaller"
    and r6: "0 < readers (heap ?R ! 0)" and r7: "queueSize (heap ?R ! 0) - 1 \<noteq> 0"
    and r8: "queueSize (heap ?R ! 0) = 2" and r9: "mapLock ?R = Some 2"
    and r10: "map_option (\<lambda>s. threads s ! 0) (run 0 3 ?R) = Some (Ret Success)"
    and r11: "map_option (\<lambda>s. threads s ! 0) (step 0 ?R) = Some (RRel_dec 0 ToCaller)"
    unfolding rrelease_with_map_busy_def by code_simp+
  from w10 obtain sw where sw: "run 0 4 ?W = Some sw" "threads sw ! 0 = Ret Success" by auto
  from w11 obtain sw1 where sw1: "step 0 ?W = Some sw1" by auto
  from r10 obtain sr where sr: "run 0 3 ?R = Some sr" "threads sr ! 0 = Ret Success" by auto
  from r11 obtain sr1 where sr1: "step 0 ?R = Some sr1" by auto
  have pw: "release_pc (threads ?W ! 0)" by (simp add: w5)
  have pr: "rrelease_pc (threads ?R ! 0)" by (simp add: r5)
  note W = Release_frame [OF w1 w2, of 0]
  note R = Release_frame [OF r1 r2, of 0]
  from W w3 w4 w5 w6 w7 sw(1) have fw: "locks sw = locks ?W \<and> mapLock sw = mapLock ?W"
    by blast
  from R r3 r4 r5 r6 r7 sr(1) have fr: "locks sr = locks ?R \<and> mapLock sr = mapLock ?R"
    by blast
  from W pw sw1 have nw: "map name (heap sw1) = map name (heap ?W)" by blast
  from R pr sr1 have nr: "map writeLockMode (heap sr1) = map writeLockMode (heap ?R)
         \<and> map writeLockCount (heap sr1) = map writeLockCount (heap ?R)
         \<and> map name (heap sr1) = map name (heap ?R)" by blast
  show ?thesis
    using w5 w8 w9 r5 r8 r9 sw sr sw1 sr1 fw fr nw nr by auto
qed

subsection \<open>Upgrade: the invariant holds\<close>












subsection \<open>Upgrade: the handle and the counter\<close>





end
